theory Spec2Isabelle
  imports Main "HOL-Library.Word"
begin

section \<open>BlueSky Profile Pics Inline: the content script \<open>content.js\<close>\<close>

subsection \<open>JavaScript strings\<close>

text \<open>
  A JavaScript string is a sequence of UTF-16 code units. \<open>String.prototype.trim\<close>,
  \<open>startsWith\<close> and a regular expression without the \<open>u\<close> flag all work on code
  units, so the model does too. \<open>js\<close> embeds an ASCII literal.
\<close>

type_synonym jsstring = "16 word list"

definition js :: "string \<Rightarrow> jsstring" where
  "js s = map of_char s"

text \<open>
  The code units \<open>trim\<close> strips: ECMAScript's WhiteSpace and LineTerminator
  (TAB, LF, VT, FF, CR, SP, NBSP, U+1680, U+2000..U+200A, LS, PS, U+202F, U+205F,
  U+3000, BOM).
\<close>

definition isWhiteSpace :: "16 word \<Rightarrow> bool" where
  "isWhiteSpace c \<longleftrightarrow>
     (0x09 \<le> c \<and> c \<le> 0x0D) \<or> c = 0x20 \<or> c = 0xA0 \<or> c = 0x1680 \<or>
     (0x2000 \<le> c \<and> c \<le> 0x200A) \<or> c = 0x2028 \<or> c = 0x2029 \<or> c = 0x202F \<or>
     c = 0x205F \<or> c = 0x3000 \<or> c = 0xFEFF"

definition trim :: "jsstring \<Rightarrow> jsstring" where
  "trim s = rev (dropWhile isWhiteSpace (rev (dropWhile isWhiteSpace s)))"

text \<open>\<open>s.startsWith('@')\<close>: the first code unit is U+0040.\<close>

definition startsWithAt :: "jsstring \<Rightarrow> bool" where
  "startsWithAt s = (case s of [] \<Rightarrow> False | c # _ \<Rightarrow> c = 0x40)"

text \<open>
  A string is well formed when it has no lone surrogate; \<open>encodeURIComponent\<close>
  throws a \<open>URIError\<close> on any other string.
\<close>

definition isHighSurrogate :: "16 word \<Rightarrow> bool" where
  "isHighSurrogate c \<longleftrightarrow> 0xD800 \<le> c \<and> c \<le> 0xDBFF"

definition isLowSurrogate :: "16 word \<Rightarrow> bool" where
  "isLowSurrogate c \<longleftrightarrow> 0xDC00 \<le> c \<and> c \<le> 0xDFFF"

fun wellFormed :: "jsstring \<Rightarrow> bool" where
  "wellFormed [] = True"
| "wellFormed [c] = (\<not> isHighSurrogate c \<and> \<not> isLowSurrogate c)"
| "wellFormed (c # d # cs) =
     (if isHighSurrogate c then isLowSurrogate d \<and> wellFormed cs
      else \<not> isLowSurrogate c \<and> wellFormed (d # cs))"

subsection \<open>The regular expression of \<open>extractHandle\<close>\<close>

text \<open>
  \<open>/\/profile\/([^/?#]+)/\<close>: the literal \<open>/profile/\<close> followed by a greedy,
  non-empty run of code units other than \<open>/\<close>, \<open>?\<close> and \<open>#\<close>. \<open>matchAt\<close> is an attempt
  at the start of its argument and gives capture group 1; \<open>matchProfile\<close> is
  \<open>String.prototype.match\<close>, which tries every start position from the left and
  keeps the first attempt that succeeds.
\<close>

definition profilePath :: jsstring where
  "profilePath = js ''/profile/''"

definition isDelimiter :: "16 word \<Rightarrow> bool" where
  "isDelimiter c \<longleftrightarrow> c = 0x2F \<or> c = 0x3F \<or> c = 0x23"

definition matchAt :: "jsstring \<Rightarrow> jsstring option" where
  "matchAt s =
     (if take (length profilePath) s = profilePath
      then (let token = takeWhile (\<lambda>c. \<not> isDelimiter c) (drop (length profilePath) s)
            in if token = [] then None else Some token)
      else None)"

fun matchProfile :: "jsstring \<Rightarrow> jsstring option" where
  "matchProfile [] = matchAt []"
| "matchProfile (c # cs) =
     (case matchAt (c # cs) of Some token \<Rightarrow> Some token | None \<Rightarrow> matchProfile cs)"

subsection \<open>The page: anchors, images, cache and processed set\<close>

text \<open>
  An element as the selectors of the script see it: its local name (lower case for an
  HTML element, which is what a type selector such as \<open>nav\<close> compares) and its
  \<open>data-testid\<close> and \<open>role\<close> attributes (\<open>None\<close> when the attribute is absent).
\<close>

record node =
  localName :: jsstring
  dataTestid :: "jsstring option"
  roleAttr :: "jsstring option"

text \<open>
  The children of an anchor are either the host page's rendering, kept as its
  \<open>textContent\<close>, or the single image element the script has put there,
  kept as its address in the image store.
\<close>

datatype content = Text jsstring | Img nat

record anchor =
  self :: node
  href :: "jsstring option"
  children :: content
  ancestors :: "node list"

text \<open>
  An \<open>img\<close> element made by the script. \<open>onerror\<close> holds what the handler's closure
  captured: the link and its original text.
\<close>

record image =
  className :: "jsstring list"
  alt :: jsstring
  title :: jsstring
  src :: "jsstring option"
  onload :: bool
  onerror :: "(nat \<times> jsstring) option"

text \<open>
  The payload of \<open>app.bsky.actor.getProfile\<close>, as far as the script reads it.
  Both fields are strings when present.
\<close>

record profile =
  avatar :: "jsstring option"
  displayName :: "jsstring option"

text \<open>
  Elements are objects with identity: anchors and images live in stores addressed by
  natural numbers, and \<open>processedLinks\<close> (a \<open>WeakSet\<close>) holds addresses.
  \<open>profileCache\<close> is the \<open>Map\<close>: \<open>None\<close> is a missing key, \<open>Some None\<close> the stored
  value \<open>null\<close>. \<open>requests\<close> logs the actor of every call of \<open>fetch\<close>;
  \<open>idleCallbacks\<close> and \<open>timeouts\<close> hold the batches \<open>processMentions\<close> has handed to
  \<open>requestIdleCallback\<close> and \<open>setTimeout(_, 0)\<close>.
\<close>

record page =
  anchors :: "nat \<Rightarrow> anchor"
  document :: "nat list"
  images :: "nat \<Rightarrow> image"
  nextImage :: nat
  profileCache :: "jsstring \<rightharpoonup> profile option"
  processedLinks :: "nat set"
  requests :: "jsstring list"
  hasRequestIdleCallback :: bool
  idleCallbacks :: "nat list list"
  timeouts :: "nat list list"

subsection \<open>\<open>fetchProfile\<close>\<close>

datatype exn = URIError | TypeError | SyntaxError

datatype 'a settled = Fulfilled 'a | Rejected exn

text \<open>
  What the network answers to one call of \<open>fetch\<close>: the promise rejects, or a response
  arrives with a status and a body; \<open>response.json()\<close> rejects on a body that is not
  JSON and gives the parsed value otherwise (\<open>None\<close> for the JSON value \<open>null\<close>).
\<close>

datatype body = InvalidJson | Json "profile option"

datatype fetched = NetworkError | Response nat body

definition ok :: "nat \<Rightarrow> bool" where
  "ok status \<longleftrightarrow> 200 \<le> status \<and> status \<le> 299"

text \<open>
  \<open>fetchProfile\<close> is an \<open>async\<close> function: it tests the cache, and on a miss it waits
  for \<open>fetch\<close> and for \<open>response.json()\<close> before it writes the cache. Other code runs
  while it waits, another lookup of the same handle included. It is modelled in the
  pieces the event loop runs: \<open>fetchProfile_start\<close> up to \<open>await fetch(...)\<close> and
  \<open>fetchProfile_settle\<close> from the answer of the network to the return. Between its two
  \<open>await\<close>s the function reads \<open>response.ok\<close> and touches no shared state on the way to
  the second, so they are one suspension.

  The \<open>try\<close> block has the same two pieces; \<open>Inl\<close> is an exception thrown inside it,
  with the state at the point of the throw. \<open>encodeURIComponent\<close> throws before anything
  is awaited, so the \<open>catch\<close> block then runs at once.
\<close>

definition fetchProfile_request :: "jsstring \<Rightarrow> page \<Rightarrow> (exn + unit) \<times> page" where
  "fetchProfile_request handle st =
     (if \<not> wellFormed handle then (Inl URIError, st)
      else (Inr (), st\<lparr>requests := requests st @ [handle]\<rparr>))"

definition fetchProfile_response :: "fetched \<Rightarrow> jsstring \<Rightarrow> page \<Rightarrow> (exn + profile option) \<times> page" where
  "fetchProfile_response net handle st =
     (case net of
        NetworkError \<Rightarrow> (Inl TypeError, st)
      | Response status b \<Rightarrow>
          if \<not> ok status
          then (Inr None, st\<lparr>profileCache := (profileCache st)(handle \<mapsto> None)\<rparr>)
          else
            (case b of
               InvalidJson \<Rightarrow> (Inl SyntaxError, st)
             | Json data \<Rightarrow>
                 (Inr data, st\<lparr>profileCache := (profileCache st)(handle \<mapsto> data)\<rparr>)))"

definition fetchProfile_catch :: "jsstring \<Rightarrow> page \<Rightarrow> profile option \<times> page" where
  "fetchProfile_catch handle st =
     (None, st\<lparr>profileCache := (profileCache st)(handle \<mapsto> None)\<rparr>)"

text \<open>
  How the call stands when it first gives up control: it has returned a value, or it
  waits for the network.
\<close>

datatype started = Returned "profile option" | Awaiting

definition fetchProfile_start :: "jsstring \<Rightarrow> page \<Rightarrow> started \<times> page" where
  "fetchProfile_start handle st =
     (case profileCache st handle of
        Some cached \<Rightarrow> (Returned cached, st)
      | None \<Rightarrow>
          (case fetchProfile_request handle st of
             (Inl error, st1) \<Rightarrow>
               (case fetchProfile_catch handle st1 of (v, st2) \<Rightarrow> (Returned v, st2))
           | (Inr u, st1) \<Rightarrow> (Awaiting, st1)))"

definition fetchProfile_settle :: "fetched \<Rightarrow> jsstring \<Rightarrow> page \<Rightarrow> profile option \<times> page" where
  "fetchProfile_settle net handle st =
     (case fetchProfile_response net handle st of
        (Inr data, st1) \<Rightarrow> (data, st1)
      | (Inl error, st1) \<Rightarrow> fetchProfile_catch handle st1)"

text \<open>
  A lookup that nothing interrupts: the answer of the network arrives before any other
  code of the script runs.
\<close>

definition fetchProfile :: "fetched \<Rightarrow> jsstring \<Rightarrow> page \<Rightarrow> profile option settled \<times> page" where
  "fetchProfile net handle st =
     (case fetchProfile_start handle st of
        (Returned v, st1) \<Rightarrow> (Fulfilled v, st1)
      | (Awaiting, st1) \<Rightarrow>
          (case fetchProfile_settle net handle st1 of (v, st2) \<Rightarrow> (Fulfilled v, st2)))"

text \<open>
  A session of lookups as the event loop interleaves them: a lookup starts, or the
  network answers a lookup that waits. The second component of the state lists the
  handles of the lookups that wait; an answer for a handle that no lookup waits for is
  no event of the script.
\<close>

datatype event = Lookup jsstring | Settle jsstring fetched

fun step :: "event \<Rightarrow> page \<times> jsstring list \<Rightarrow> page \<times> jsstring list" where
  "step (Lookup handle) (st, waiting) =
     (case fetchProfile_start handle st of
        (Returned v, st1) \<Rightarrow> (st1, waiting)
      | (Awaiting, st1) \<Rightarrow> (st1, waiting @ [handle]))"
| "step (Settle handle net) (st, waiting) =
     (if handle \<in> set waiting
      then (snd (fetchProfile_settle net handle st), remove1 handle waiting)
      else (st, waiting))"

fun session :: "event list \<Rightarrow> page \<times> jsstring list \<Rightarrow> page \<times> jsstring list" where
  "session [] c = c"
| "session (e # es) c = session es (step e c)"

subsection \<open>\<open>extractHandle\<close>, \<open>isInPost\<close>, \<open>isMention\<close>\<close>

definition extractHandle :: "anchor \<Rightarrow> jsstring option" where
  "extractHandle link =
     (case href link of
        None \<Rightarrow> None
      | Some h \<Rightarrow> if h = [] then None else matchProfile h)"

text \<open>
  \<open>closest\<close> walks from the element itself upwards and gives the first match followed
  by its own ancestors; \<open>[]\<close> is \<open>null\<close>.
\<close>

definition closest :: "(node \<Rightarrow> bool) \<Rightarrow> anchor \<Rightarrow> node list" where
  "closest sel link = dropWhile (\<lambda>n. \<not> sel n) (self link # ancestors link)"

definition testidIs :: "string \<Rightarrow> node \<Rightarrow> bool" where
  "testidIs v n \<longleftrightarrow> dataTestid n = Some (js v)"

definition testidStartsWith :: "string \<Rightarrow> node \<Rightarrow> bool" where
  "testidStartsWith v n \<longleftrightarrow>
     (case dataTestid n of None \<Rightarrow> False | Some t \<Rightarrow> take (length (js v)) t = js v)"

definition tagIs :: "string \<Rightarrow> node \<Rightarrow> bool" where
  "tagIs v n \<longleftrightarrow> localName n = js v"

definition roleIs :: "string \<Rightarrow> node \<Rightarrow> bool" where
  "roleIs v n \<longleftrightarrow> roleAttr n = Some (js v)"

definition textContent :: "anchor \<Rightarrow> jsstring" where
  "textContent link = (case children link of Text s \<Rightarrow> s | Img i \<Rightarrow> [])"

definition isInPost :: "anchor \<Rightarrow> bool" where
  "isInPost link =
     (if closest (testidIs ''profileHeaderDisplayName'') link \<noteq> [] then False
      else if closest (testidIs ''profileHeaderHandle'') link \<noteq> [] then False
      else if closest (testidIs ''suggestedFollows'') link \<noteq> [] then False
      else if closest (testidIs ''whoToFollow'') link \<noteq> [] then False
      else if closest (tagIs ''nav'') link \<noteq> [] then False
      else if closest (roleIs ''navigation'') link \<noteq> [] then False
      else if closest (testidIs ''homeScreenFeedTabs'') link \<noteq> [] then False
      else if \<not> startsWithAt (trim (textContent link)) then False
      else if closest (testidIs ''postText'') link \<noteq> [] \<or>
              closest (testidStartsWith ''feedItem'') link \<noteq> [] \<or>
              closest (testidIs ''threadPost'') link \<noteq> [] \<or>
              closest (testidIs ''postThreadItem'') link \<noteq> [] \<or>
              closest (tagIs ''article'') link \<noteq> [] \<or>
              (case closest (testidIs ''replyBtn'') link of
                 [] \<Rightarrow> False | m # parents \<Rightarrow> parents \<noteq> [])
           then True
      else if (closest (tagIs ''main'') link \<noteq> [] \<or>
               closest (testidIs ''mainContent'') link \<noteq> []) \<and>
              \<not> (closest (testidIs ''postMeta'') link \<noteq> [] \<or>
                 closest (tagIs ''header'') link \<noteq> [])
           then True
      else False)"

text \<open>\<open>text && text.startsWith('@')\<close>, read as a condition.\<close>

definition isMention :: "anchor \<Rightarrow> bool" where
  "isMention link =
     (let text = trim (textContent link) in text \<noteq> [] \<and> startsWithAt text)"

subsection \<open>\<open>replaceMention\<close>\<close>

text \<open>
  \<open>replaceMention\<close> is an \<open>async\<close> function with one \<open>await\<close>. It is modelled in the
  pieces the event loop runs: \<open>replaceMention_begin\<close> up to the \<open>await\<close>,
  \<open>replaceMention_resume\<close> from the value of \<open>fetchProfile\<close> to the end, and the two
  event handlers it installs on the image. \<open>awaiting\<close> is what the continuation keeps
  of the local variables.
\<close>

record awaiting =
  handleOf :: jsstring
  imgOf :: nat
  originalText :: jsstring

definition setChildren :: "nat \<Rightarrow> content \<Rightarrow> page \<Rightarrow> page" where
  "setChildren link c st =
     st\<lparr>anchors := (anchors st)(link := (anchors st link)\<lparr>children := c\<rparr>)\<rparr>"

definition replaceMention_begin :: "nat \<Rightarrow> page \<Rightarrow> awaiting option \<times> page" where
  "replaceMention_begin link st =
     (if link \<in> processedLinks st then (None, st)
      else
        (let st1 = st\<lparr>processedLinks := insert link (processedLinks st)\<rparr> in
         case extractHandle (anchors st1 link) of
           None \<Rightarrow> (None, st1)
         | Some handle \<Rightarrow>
             if handle = [] then (None, st1)
             else
               (let img = nextImage st1;
                    text = textContent (anchors st1 link);
                    st2 = st1\<lparr>images := (images st1)(img :=
                                 \<lparr>className = [js ''bppi-avatar'', js ''bppi-loading''],
                                  alt = text, title = text, src = None,
                                  onload = False, onerror = None\<rparr>),
                               nextImage := Suc img\<rparr>;
                    st3 = setChildren link (Img img) st2
                in (Some \<lparr>handleOf = handle, imgOf = img, originalText = text\<rparr>, st3))))"

text \<open>
  The two places that restore the text and forget the link: the \<open>else\<close> branch and
  \<open>img.onerror\<close>.
\<close>

definition restore :: "nat \<Rightarrow> jsstring \<Rightarrow> page \<Rightarrow> page" where
  "restore link text st =
     (let st1 = setChildren link (Text text) st
      in st1\<lparr>processedLinks := processedLinks st1 - {link}\<rparr>)"

text \<open>A string-valued property read as a condition: present and not empty.\<close>

definition truthy :: "jsstring option \<Rightarrow> bool" where
  "truthy v = (case v of None \<Rightarrow> False | Some s \<Rightarrow> s \<noteq> [])"

text \<open>The condition \<open>profile && profile.avatar\<close>.\<close>

definition hasAvatar :: "profile option \<Rightarrow> bool" where
  "hasAvatar result = (case result of None \<Rightarrow> False | Some p \<Rightarrow> truthy (avatar p))"

text \<open>\<open>`${profile.displayName || handle} (@${handle})`\<close>\<close>

definition label :: "profile \<Rightarrow> jsstring \<Rightarrow> jsstring" where
  "label p handle =
     (case displayName p of
        None \<Rightarrow> handle
      | Some name \<Rightarrow> if name = [] then handle else name)
       @ js '' (@'' @ handle @ js '')''"

definition replaceMention_resume :: "nat \<Rightarrow> awaiting \<Rightarrow> profile option \<Rightarrow> page \<Rightarrow> page" where
  "replaceMention_resume link k result st =
     (case result of
        None \<Rightarrow> restore link (originalText k) st
      | Some p \<Rightarrow>
          if truthy (avatar p)
          then st\<lparr>images := (images st)(imgOf k := (images st (imgOf k))
                    \<lparr>src := avatar p,
                     title := label p (handleOf k),
                     className := removeAll (js ''bppi-loading'') (className (images st (imgOf k))),
                     onload := True,
                     onerror := Some (link, originalText k)\<rparr>)\<rparr>
          else restore link (originalText k) st)"

definition replaceMention :: "fetched \<Rightarrow> nat \<Rightarrow> page \<Rightarrow> page" where
  "replaceMention net link st =
     (case replaceMention_begin link st of
        (None, st1) \<Rightarrow> st1
      | (Some k, st1) \<Rightarrow>
          (case fetchProfile net (handleOf k) st1 of
             (Fulfilled result, st2) \<Rightarrow> replaceMention_resume link k result st2
           | (Rejected error, st2) \<Rightarrow> st2))"

text \<open>What the browser reports for an image whose \<open>src\<close> was set, if anything yet.\<close>

datatype loading = Pending | Load | Error

definition classListAdd :: "jsstring \<Rightarrow> jsstring list \<Rightarrow> jsstring list" where
  "classListAdd c cs = (if c \<in> set cs then cs else cs @ [c])"

definition imageEvent :: "loading \<Rightarrow> nat \<Rightarrow> page \<Rightarrow> page" where
  "imageEvent ev img st =
     (case ev of
        Pending \<Rightarrow> st
      | Load \<Rightarrow>
          if onload (images st img)
          then st\<lparr>images := (images st)(img := (images st img)
                    \<lparr>className := classListAdd (js ''bppi-loaded'') (className (images st img))\<rparr>)\<rparr>
          else st
      | Error \<Rightarrow>
          (case onerror (images st img) of
             None \<Rightarrow> st
           | Some (link, text) \<Rightarrow> restore link text st))"

subsection \<open>\<open>processMentions\<close>\<close>

text \<open>\<open>a[href*="/profile/"]\<close>: an anchor whose \<open>href\<close> has the substring.\<close>

fun containsProfile :: "jsstring \<Rightarrow> bool" where
  "containsProfile [] = False"
| "containsProfile (c # cs) =
     (take (length profilePath) (c # cs) = profilePath \<or> containsProfile cs)"

definition querySelectorAll :: "page \<Rightarrow> nat list" where
  "querySelectorAll st =
     filter (\<lambda>link. tagIs ''a'' (self (anchors st link)) \<and>
                    (case href (anchors st link) of None \<Rightarrow> False | Some h \<Rightarrow> containsProfile h))
            (document st)"

definition mentionsToProcess :: "page \<Rightarrow> nat list" where
  "mentionsToProcess st =
     filter (\<lambda>link. link \<notin> processedLinks st \<and>
                    isMention (anchors st link) \<and> isInPost (anchors st link))
            (querySelectorAll st)"

definition processMentions :: "page \<Rightarrow> page" where
  "processMentions st =
     (let batch = mentionsToProcess st in
      if length batch > 0
      then (if hasRequestIdleCallback st
            then st\<lparr>idleCallbacks := idleCallbacks st @ [batch]\<rparr>
            else st\<lparr>timeouts := timeouts st @ [batch]\<rparr>)
      else st)"

text \<open>
  The callback \<open>processMentions\<close> has queued: \<open>mentionsToProcess.forEach(link =>
  replaceMention(link))\<close>. Each call runs up to its \<open>await\<close>; the calls that wait are
  returned with what they keep. \<open>runIdleCallback\<close> and \<open>runTimeout\<close> take the oldest
  queued batch and run it.
\<close>

fun forEachReplaceMention :: "nat list \<Rightarrow> page \<Rightarrow> (nat \<times> awaiting) list \<times> page" where
  "forEachReplaceMention [] st = ([], st)"
| "forEachReplaceMention (link # links) st =
     (case replaceMention_begin link st of
        (None, st1) \<Rightarrow> forEachReplaceMention links st1
      | (Some k, st1) \<Rightarrow>
          (case forEachReplaceMention links st1 of (ks, st2) \<Rightarrow> ((link, k) # ks, st2)))"


definition runTimeout :: "page \<Rightarrow> (nat \<times> awaiting) list \<times> page" where
  "runTimeout st =
     (case timeouts st of
        [] \<Rightarrow> ([], st)
      | batch # rest \<Rightarrow> forEachReplaceMention batch (st\<lparr>timeouts := rest\<rparr>))"



subsection \<open>\<open>setupObserver\<close>\<close>

text \<open>
  Time is a count of milliseconds. \<open>timers\<close> holds the pending calls
  \<open>setTimeout(processMentions, 100)\<close> as pairs of timer id and due time;
  \<open>timeoutHandle\<close> is \<open>setupObserver.timeout\<close>, never reset once set. Timer ids are
  positive, so a stored id is truthy. \<open>scanLog\<close> records when \<open>processMentions\<close> ran
  from a timer.
\<close>

record watcher =
  shown :: page
  timeoutHandle :: "nat option"
  timers :: "(nat \<times> nat) list"
  nextTimer :: nat
  scanLog :: "nat list"

text \<open>A \<open>MutationRecord\<close>, as far as the callback reads it.\<close>

record mutation =
  addedNodes :: nat
  removedNodes :: nat

definition shouldProcess :: "mutation list \<Rightarrow> bool" where
  "shouldProcess mutations = list_ex (\<lambda>m. addedNodes m > 0) mutations"

definition clearTimeout :: "nat \<Rightarrow> watcher \<Rightarrow> watcher" where
  "clearTimeout h w = w\<lparr>timers := filter (\<lambda>(i, due). i \<noteq> h) (timers w)\<rparr>"

definition setTimeout100 :: "nat \<Rightarrow> watcher \<Rightarrow> watcher" where
  "setTimeout100 now w =
     w\<lparr>timers := timers w @ [(nextTimer w, now + 100)],
       timeoutHandle := Some (nextTimer w),
       nextTimer := Suc (nextTimer w)\<rparr>"

definition observerCallback :: "nat \<Rightarrow> mutation list \<Rightarrow> watcher \<Rightarrow> watcher" where
  "observerCallback now mutations w =
     (if shouldProcess mutations
      then setTimeout100 now
             (case timeoutHandle w of
                None \<Rightarrow> w
              | Some h \<Rightarrow> if h \<noteq> 0 then clearTimeout h w else w)
      else w)"

text \<open>
  The event loop at time \<open>now\<close>: every timer that is due runs \<open>processMentions\<close>, in
  the order the timers were set, and is gone.
\<close>

fun fire :: "nat \<Rightarrow> (nat \<times> nat) list \<Rightarrow> watcher \<Rightarrow> watcher" where
  "fire now [] w = w"
| "fire now ((i, due) # rest) w =
     (if due \<le> now
      then fire now rest (w\<lparr>shown := processMentions (shown w),
                             timers := filter (\<lambda>(j, d). j \<noteq> i) (timers w),
                             scanLog := scanLog w @ [now]\<rparr>)
      else fire now rest w)"

definition runTimers :: "nat \<Rightarrow> watcher \<Rightarrow> watcher" where
  "runTimers now w = fire now (timers w) w"

text \<open>Mutation batches delivered at given times, the timers running in between.\<close>

fun deliver :: "(nat \<times> mutation list) list \<Rightarrow> watcher \<Rightarrow> watcher" where
  "deliver [] w = w"
| "deliver ((now, mutations) # rest) w =
     deliver rest (observerCallback now mutations (runTimers now w))"

definition setupObserver :: "page \<Rightarrow> watcher" where
  "setupObserver st =
     \<lparr>shown = st, timeoutHandle = None, timers = [], nextTimer = 1, scanLog = []\<rparr>"

text \<open>
  Bursts that arrive within the debounce window: each one comes less than 100 ms after
  the one before it.
\<close>

fun withinWindow :: "(nat \<times> mutation list) list \<Rightarrow> bool" where
  "withinWindow [] = True"
| "withinWindow [b] = True"
| "withinWindow ((t1, m1) # (t2, m2) # rest) =
     (t1 \<le> t2 \<and> t2 < t1 + 100 \<and> withinWindow ((t2, m2) # rest))"

definition addsNode :: "mutation list \<Rightarrow> bool" where
  "addsNode mutations \<longleftrightarrow> (\<exists>m \<in> set mutations. 0 < addedNodes m)"

text \<open>
  The watcher with one timer pending, due at \<open>due\<close>, and no scan run from a timer yet.
\<close>

definition armed :: "page \<Rightarrow> watcher \<Rightarrow> nat \<Rightarrow> bool" where
  "armed st w due \<longleftrightarrow>
     (\<exists>h. timers w = [(h, due)] \<and> timeoutHandle w = Some h \<and> h \<noteq> 0) \<and>
     nextTimer w \<noteq> 0 \<and> scanLog w = [] \<and> shown w = st"

subsection \<open>The profile-path pattern, in the words of the specification\<close>

text \<open>
  A destination \<open>h\<close> has the path segment pattern \<open>/profile/{token}\<close> after the prefix
  \<open>before\<close> when \<open>/profile/\<close> stands there, followed by \<open>token\<close>, a non-empty run of
  characters that goes up to the next \<open>/\<close>, \<open>?\<close> or \<open>#\<close> or to the end of the destination.
\<close>

definition spec_profilePattern :: "jsstring \<Rightarrow> jsstring \<Rightarrow> jsstring \<Rightarrow> jsstring \<Rightarrow> bool" where
  "spec_profilePattern h before token rest \<longleftrightarrow>
     h = before @ profilePath @ token @ rest \<and> token \<noteq> [] \<and>
     list_all (\<lambda>c. \<not> isDelimiter c) token \<and>
     (case rest of [] \<Rightarrow> True | c # _ \<Rightarrow> isDelimiter c)"

text \<open>
  A failed fetch, in the words of the specification: a transport error, a non-success
  status, or a payload that does not parse.
\<close>

definition spec_failed :: "fetched \<Rightarrow> bool" where
  "spec_failed net =
     (case net of
        NetworkError \<Rightarrow> True
      | Response status b \<Rightarrow> \<not> ok status \<or> b = InvalidJson)"

subsection \<open>A page to run the script on\<close>

text \<open>
  One anchor with the text \<open>@alice.test\<close> inside a post's text container; the
  destination of the anchor is left open.
\<close>

definition mentionLink :: "jsstring option \<Rightarrow> anchor" where
  "mentionLink h =
     \<lparr>self = \<lparr>localName = js ''a'', dataTestid = None, roleAttr = None\<rparr>,
      href = h,
      children = Text (js ''@alice.test''),
      ancestors = [\<lparr>localName = js ''div'', dataTestid = Some (js ''postText''), roleAttr = None\<rparr>]\<rparr>"

definition blankImage :: image where
  "blankImage = \<lparr>className = [], alt = [], title = [], src = None, onload = False, onerror = None\<rparr>"

definition feedPage :: "jsstring option \<Rightarrow> page" where
  "feedPage h =
     \<lparr>anchors = (\<lambda>link. mentionLink h), document = [0],
      images = (\<lambda>img. blankImage), nextImage = 0,
      profileCache = Map.empty, processedLinks = {}, requests = [],
      hasRequestIdleCallback = True, idleCallbacks = [], timeouts = []\<rparr>"

text \<open>What \<open>replaceMention\<close> keeps across its \<open>await\<close> on that page.\<close>

definition aliceAwaiting :: awaiting where
  "aliceAwaiting = \<lparr>handleOf = js ''alice.test'', imgOf = 0, originalText = js ''@alice.test''\<rparr>"

definition noAvatarProfile :: profile where
  "noAvatarProfile = \<lparr>avatar = None, displayName = Some (js ''Alice'')\<rparr>"

text \<open>
  Two lookups of one handle that overlap: both start before the network has answered
  either, then the first is answered with a transport error.
\<close>

definition overlappingLookups :: "event list" where
  "overlappingLookups =
     [Lookup (js ''alice.test''), Lookup (js ''alice.test''),
      Settle (js ''alice.test'') NetworkError]"

text \<open>Fifty post nodes added in three bursts 20 ms apart.\<close>

definition threeBursts :: "(nat \<times> mutation list) list" where
  "threeBursts =
     [(0, [\<lparr>addedNodes = 20, removedNodes = 0\<rparr>]),
      (20, [\<lparr>addedNodes = 0, removedNodes = 3\<rparr>, \<lparr>addedNodes = 20, removedNodes = 0\<rparr>]),
      (40, [\<lparr>addedNodes = 10, removedNodes = 0\<rparr>])]"

definition aliceProfile :: profile where
  "aliceProfile = \<lparr>avatar = Some (js ''https://x/img.jpg''), displayName = Some (js ''Alice'')\<rparr>"

section \<open>Properties\<close>

subsection \<open>The regular expression\<close>

lemma matchAt_Some_iff:
  "matchAt s = Some token \<longleftrightarrow> (\<exists>rest. spec_profilePattern s [] token rest)"
proof
  assume m: "matchAt s = Some token"
  let ?P = "\<lambda>c. \<not> isDelimiter c"
  let ?d = "drop (length profilePath) s"
  from m have pre: "take (length profilePath) s = profilePath"
    and tok: "token = takeWhile ?P ?d" and ne: "token \<noteq> []"
    by (auto simp: matchAt_def Let_def split: if_splits)
  have "s = take (length profilePath) s @ ?d" by simp
  also have "?d = token @ dropWhile ?P ?d" using tok by simp
  finally have s: "s = profilePath @ token @ dropWhile ?P ?d" using pre by simp
  have all: "list_all ?P token" using tok by (simp add: list_all_iff) (metis set_takeWhileD)
  have rest: "(case dropWhile ?P ?d of [] \<Rightarrow> True | c # _ \<Rightarrow> isDelimiter c)"
  proof (cases "dropWhile ?P ?d")
    case Nil
    then show ?thesis by (simp only: list.case)
  next
    case (Cons a list)
    then have "isDelimiter a" by (simp add: dropWhile_eq_Cons_conv)
    with Cons show ?thesis by simp
  qed
  show "\<exists>rest. spec_profilePattern s [] token rest"
    unfolding spec_profilePattern_def using s ne all rest
    by (intro exI[of _ "dropWhile ?P ?d"]) simp
next
  assume "\<exists>rest. spec_profilePattern s [] token rest"
  then obtain rest where s: "s = profilePath @ token @ rest" and ne: "token \<noteq> []"
    and all: "list_all (\<lambda>c. \<not> isDelimiter c) token"
    and rest: "(case rest of [] \<Rightarrow> True | c # _ \<Rightarrow> isDelimiter c)"
    by (auto simp: spec_profilePattern_def)
  have "takeWhile (\<lambda>c. \<not> isDelimiter c) (token @ rest) = token"
    using all rest by (cases rest) (auto simp: list_all_iff)
  then show "matchAt s = Some token"
    using s ne by (simp add: matchAt_def)
qed

lemma spec_profilePattern_shift:
  "spec_profilePattern (c # s) (c # before) token rest \<longleftrightarrow> spec_profilePattern s before token rest"
  by (simp add: spec_profilePattern_def)

lemma spec_profilePattern_Cons:
  "spec_profilePattern (c # s) before token rest \<Longrightarrow> before \<noteq> [] \<Longrightarrow>
     \<exists>b. before = c # b \<and> spec_profilePattern s b token rest"
  by (cases before) (auto simp: spec_profilePattern_def)

lemma matchProfile_None_iff:
  "matchProfile s = None \<longleftrightarrow> (\<forall>before token rest. \<not> spec_profilePattern s before token rest)"
proof (induction s)
  case Nil
  have "matchAt [] = None" by (simp add: matchAt_def profilePath_def js_def)
  moreover have "\<not> spec_profilePattern [] before token rest" for before token rest
    by (simp add: spec_profilePattern_def)
  ultimately show ?case by simp
next
  case (Cons c s)
  show ?case
  proof (cases "matchAt (c # s)")
    case None
    then have no: "\<not> spec_profilePattern (c # s) [] token rest" for token rest
      using matchAt_Some_iff[of "c # s" token] by auto
    from None have "matchProfile (c # s) = matchProfile s" by simp
    moreover have "(\<exists>before token rest. spec_profilePattern (c # s) before token rest) \<longleftrightarrow>
                   (\<exists>before token rest. spec_profilePattern s before token rest)"
      using no spec_profilePattern_Cons[of c s] spec_profilePattern_shift[of c s] by metis
    ultimately show ?thesis using Cons.IH by metis
  next
    case (Some t)
    then show ?thesis using matchAt_Some_iff[of "c # s" t] by auto
  qed
qed

lemma matchProfile_Some:
  "matchProfile s = Some token \<Longrightarrow>
     \<exists>before rest. spec_profilePattern s before token rest \<and>
       (\<forall>before' token' rest'. spec_profilePattern s before' token' rest' \<longrightarrow>
          length before \<le> length before')"
proof (induction s)
  case Nil
  then show ?case by (simp add: matchAt_def profilePath_def js_def)
next
  case (Cons c s)
  show ?case
  proof (cases "matchAt (c # s)")
    case None
    then have no: "\<not> spec_profilePattern (c # s) [] token rest" for token rest
      using matchAt_Some_iff[of "c # s" token] by auto
    from None Cons.prems have "matchProfile s = Some token" by simp
    from Cons.IH[OF this] obtain before rest where o: "spec_profilePattern s before token rest"
      and least: "\<forall>before' token' rest'. spec_profilePattern s before' token' rest' \<longrightarrow>
                    length before \<le> length before'"
      by blast
    have "spec_profilePattern (c # s) (c # before) token rest"
      using o by (simp add: spec_profilePattern_shift)
    moreover have "length (c # before) \<le> length before'"
      if "spec_profilePattern (c # s) before' token' rest'" for before' token' rest'
    proof -
      from that no have "before' \<noteq> []" by auto
      from spec_profilePattern_Cons[OF that this]
      obtain b where "before' = c # b" "spec_profilePattern s b token' rest'"
        by blast
      with least show ?thesis by auto
    qed
    ultimately show ?thesis by blast
  next
    case (Some t)
    with Cons.prems have "t = token" by simp
    with Some obtain rest where "spec_profilePattern (c # s) [] token rest"
      using matchAt_Some_iff[of "c # s" token] by auto
    then show ?thesis by (intro exI[of _ "[]"] exI[of _ rest]) simp
  qed
qed

lemma matchProfile_nonempty: "matchProfile s \<noteq> Some []"
  using matchProfile_Some[of s "[]"] by (auto simp: spec_profilePattern_def)

subsection \<open>Extracting the handle\<close>

text \<open>
  C7. \<open>extractHandle\<close> returns a token exactly when the destination of the anchor has
  the pattern \<open>/profile/{token}\<close>: the token it returns is the run of characters after
  the leftmost \<open>/profile/\<close> that is followed by such a run, up to the next \<open>/\<close>, \<open>?\<close> or
  \<open>#\<close>; it returns none exactly when the anchor has no destination or the destination
  has the pattern nowhere.
\<close>

theorem extractHandle_profile_token:
  "(\<forall>token. extractHandle link = Some token \<longrightarrow>
      (\<exists>h before rest. href link = Some h \<and> spec_profilePattern h before token rest \<and>
         (\<forall>before' token' rest'. spec_profilePattern h before' token' rest' \<longrightarrow>
            length before \<le> length before'))) \<and>
   (extractHandle link = None \<longleftrightarrow>
      (\<forall>h before token rest. href link = Some h \<longrightarrow> \<not> spec_profilePattern h before token rest))"
proof (cases "href link")
  case None
  then show ?thesis by (simp add: extractHandle_def)
next
  case (Some h)
  show ?thesis
  proof (cases "h = []")
    case True
    with Some show ?thesis by (simp add: extractHandle_def spec_profilePattern_def)
  next
    case False
    with Some have e: "extractHandle link = matchProfile h" by (simp add: extractHandle_def)
    show ?thesis
      unfolding e using Some matchProfile_Some[of h] matchProfile_None_iff[of h] by auto
  qed
qed

theorem extractHandle_profile_token_witness:
  "extractHandle (mentionLink (Some (js ''https://bsky.app/profile/alice.test?x=1''))) = Some (js ''alice.test'') \<and>
   spec_profilePattern (js ''https://bsky.app/profile/alice.test?x=1'') (js ''https://bsky.app'')
     (js ''alice.test'') (js ''?x=1'') \<and>
   extractHandle (mentionLink (Some (js ''/profile/''))) = None \<and>
   (\<forall>before token rest. \<not> spec_profilePattern (js ''/profile/'') before token rest) \<and>
   extractHandle (mentionLink None) = None"
proof -
  have a: "extractHandle (mentionLink (Some (js ''https://bsky.app/profile/alice.test?x=1''))) = Some (js ''alice.test'')"
    by (simp add: extractHandle_def mentionLink_def js_def matchAt_def profilePath_def isDelimiter_def)
  have b: "extractHandle (mentionLink (Some (js ''/profile/''))) = None"
    by (simp add: extractHandle_def mentionLink_def js_def matchAt_def profilePath_def isDelimiter_def)
  have c: "extractHandle (mentionLink None) = None"
    by (simp add: extractHandle_def mentionLink_def)
  have d: "spec_profilePattern (js ''https://bsky.app/profile/alice.test?x=1'') (js ''https://bsky.app'')
     (js ''alice.test'') (js ''?x=1'')"
    by (simp add: spec_profilePattern_def js_def profilePath_def isDelimiter_def)
  have e: "href (mentionLink (Some (js ''/profile/''))) = Some (js ''/profile/'')"
    by (simp add: mentionLink_def)
  from extractHandle_profile_token[of "mentionLink (Some (js ''/profile/''))"] b e
  have "\<forall>before token rest. \<not> spec_profilePattern (js ''/profile/'') before token rest"
    by simp
  with a b c d show ?thesis by simp
qed

lemma mentionLink_isInPost: "isInPost (mentionLink h)"
  by (simp add: isInPost_def mentionLink_def closest_def testidIs_def tagIs_def roleIs_def
      testidStartsWith_def textContent_def trim_def isWhiteSpace_def startsWithAt_def js_def)

subsection \<open>Scope implies mention\<close>

text \<open>
  C9. If \<open>isInPost\<close> holds of an element then its trimmed text starts with \<open>@\<close>, and so
  \<open>isMention\<close> holds of it too.
\<close>

theorem isInPost_implies_isMention:
  "isInPost link \<Longrightarrow> startsWithAt (trim (textContent link)) \<and> isMention link"
proof -
  assume "isInPost link"
  then have s: "startsWithAt (trim (textContent link))"
    unfolding isInPost_def by (simp split: if_splits)
  then have "trim (textContent link) \<noteq> []" by (auto simp: startsWithAt_def)
  with s show ?thesis by (simp add: isMention_def)
qed

theorem isInPost_implies_isMention_witness:
  "isInPost (mentionLink None) \<and> startsWithAt (trim (textContent (mentionLink None))) \<and>
   isMention (mentionLink None)"
  using isInPost_implies_isMention[of "mentionLink None"] mentionLink_isInPost[of None] by simp

subsection \<open>The cache\<close>

lemma fetchProfile_unfold:
  "fetchProfile net handle st =
     (case profileCache st handle of
        Some cached \<Rightarrow> (Fulfilled cached, st)
      | None \<Rightarrow>
          if \<not> wellFormed handle
          then (Fulfilled None, st\<lparr>profileCache := (profileCache st)(handle \<mapsto> None)\<rparr>)
          else
            (case net of
               NetworkError \<Rightarrow>
                 (Fulfilled None, st\<lparr>requests := requests st @ [handle],
                                     profileCache := (profileCache st)(handle \<mapsto> None)\<rparr>)
             | Response status b \<Rightarrow>
                 if \<not> ok status
                 then (Fulfilled None, st\<lparr>requests := requests st @ [handle],
                                          profileCache := (profileCache st)(handle \<mapsto> None)\<rparr>)
                 else
                   (case b of
                      InvalidJson \<Rightarrow>
                        (Fulfilled None, st\<lparr>requests := requests st @ [handle],
                                            profileCache := (profileCache st)(handle \<mapsto> None)\<rparr>)
                    | Json data \<Rightarrow>
                        (Fulfilled data, st\<lparr>requests := requests st @ [handle],
                                            profileCache := (profileCache st)(handle \<mapsto> data)\<rparr>))))"
  by (simp add: fetchProfile_def fetchProfile_start_def fetchProfile_settle_def
      fetchProfile_request_def fetchProfile_response_def fetchProfile_catch_def
      split: option.splits fetched.splits body.splits)

lemma fetchProfile_hit:
  "profileCache st handle = Some cached \<Longrightarrow> fetchProfile net handle st = (Fulfilled cached, st)"
  by (simp add: fetchProfile_unfold)

lemma fetchProfile_stores:
  "fetchProfile net handle st = (r, st1) \<Longrightarrow> \<exists>v. r = Fulfilled v \<and> profileCache st1 handle = Some v"
  by (auto simp: fetchProfile_unfold Let_def
      split: option.splits if_splits fetched.splits body.splits)

lemma fetchProfile_keeps:
  "profileCache st handle = Some v \<Longrightarrow> profileCache (snd (fetchProfile net other st)) handle = Some v"
  by (auto simp: fetchProfile_unfold Let_def
      split: option.splits if_splits fetched.splits body.splits)

lemma fetchProfile_frame:
  "fetchProfile net handle st = (r, st1) \<Longrightarrow>
     anchors st1 = anchors st \<and> images st1 = images st \<and> nextImage st1 = nextImage st \<and>
     processedLinks st1 = processedLinks st \<and> document st1 = document st"
  by (auto simp: fetchProfile_unfold Let_def
      split: option.splits if_splits fetched.splits body.splits)

lemma start_hit:
  "profileCache st handle = Some v \<Longrightarrow> fetchProfile_start handle st = (Returned v, st)"
  by (simp add: fetchProfile_start_def)

lemma start_Returned_stores:
  "fetchProfile_start handle st = (Returned v, st1) \<Longrightarrow> profileCache st1 handle = Some v"
  by (auto simp: fetchProfile_start_def fetchProfile_request_def fetchProfile_catch_def
      split: option.splits if_splits)

lemma settle_stores:
  "fetchProfile_settle net handle st = (v, st1) \<Longrightarrow> profileCache st1 handle = Some v"
  by (auto simp: fetchProfile_settle_def fetchProfile_response_def fetchProfile_catch_def
      split: fetched.splits body.splits if_splits)

lemma start_keeps:
  "profileCache st handle = Some v \<Longrightarrow> fetchProfile_start other st = (r, st1) \<Longrightarrow>
     profileCache st1 handle = Some v \<and> (r = Awaiting \<longrightarrow> other \<noteq> handle)"
  by (auto simp: fetchProfile_start_def fetchProfile_request_def fetchProfile_catch_def
      split: option.splits if_splits)

lemma settle_keeps:
  "other \<noteq> handle \<Longrightarrow>
     profileCache (snd (fetchProfile_settle net other st)) handle = profileCache st handle"
  by (auto simp: fetchProfile_settle_def fetchProfile_response_def fetchProfile_catch_def
      split: fetched.splits body.splits)

lemma step_keeps:
  assumes "profileCache st handle = Some v" "handle \<notin> set waiting"
  shows "profileCache (fst (step e (st, waiting))) handle = Some v \<and>
         handle \<notin> set (snd (step e (st, waiting)))"
proof (cases e)
  case (Lookup other)
  obtain r st1 where s: "fetchProfile_start other st = (r, st1)"
    by (cases "fetchProfile_start other st")
  from start_keeps[OF assms(1) s] assms(2) show ?thesis
    by (cases r) (auto simp: Lookup s)
next
  case (Settle other net)
  show ?thesis
  proof (cases "other \<in> set waiting")
    case True
    with assms(2) have "other \<noteq> handle" by auto
    from settle_keeps[OF this, of net st] assms True show ?thesis
      by (simp add: Settle)
  next
    case False
    with assms show ?thesis by (simp add: Settle)
  qed
qed

lemma session_keeps:
  "profileCache st handle = Some v \<Longrightarrow> handle \<notin> set waiting \<Longrightarrow>
     profileCache (fst (session events (st, waiting))) handle = Some v \<and>
     handle \<notin> set (snd (session events (st, waiting)))"
proof (induction events arbitrary: st waiting)
  case Nil
  then show ?case by simp
next
  case (Cons e events)
  from step_keeps[OF Cons.prems, of e]
  have "profileCache (fst (step e (st, waiting))) handle = Some v"
    "handle \<notin> set (snd (step e (st, waiting)))" by simp_all
  from Cons.IH[OF this] show ?case by simp
qed

lemma wellFormed_alice: "wellFormed (js ''alice.test'')"
  by (simp add: js_def isHighSurrogate_def isLowSurrogate_def)

lemma overlapping_state:
  "session overlappingLookups (feedPage None, []) =
     ((feedPage None)\<lparr>requests := [js ''alice.test'', js ''alice.test''],
                       profileCache := [js ''alice.test'' \<mapsto> None]\<rparr>,
      [js ''alice.test''])"
  using wellFormed_alice
  by (simp add: overlappingLookups_def fetchProfile_start_def fetchProfile_request_def
      fetchProfile_settle_def fetchProfile_response_def fetchProfile_catch_def feedPage_def)

text \<open>
  C4 (as the code has it). Once a lookup of an identifier has stored its result and no
  other lookup of that identifier waits for the network, every later lookup of the
  identifier, whatever else starts or is answered in between, returns the stored value
  at once, with no network call and no change of state; the negative result is one such
  value.
\<close>

theorem stored_result_returned:
  assumes "fetchProfile_settle net1 handle st = (v, st1) \<or>
           fetchProfile_start handle st = (Returned v, st1)"
    and "handle \<notin> set waiting"
  shows "fetchProfile_start handle (fst (session events (st1, waiting)))
           = (Returned v, fst (session events (st1, waiting))) \<and>
         fetchProfile net2 handle (fst (session events (st1, waiting)))
           = (Fulfilled v, fst (session events (st1, waiting))) \<and>
         handle \<notin> set (snd (session events (st1, waiting)))"
proof -
  from assms(1) have "profileCache st1 handle = Some v"
    using settle_stores start_Returned_stores by blast
  from session_keeps[OF this assms(2), of events]
  have c: "profileCache (fst (session events (st1, waiting))) handle = Some v"
    and w: "handle \<notin> set (snd (session events (st1, waiting)))" by simp_all
  from start_hit[OF c] fetchProfile_hit[OF c] w show ?thesis by simp
qed


theorem stored_result_returned_witness:
  "fetchProfile_settle NetworkError (js ''alice.test'') (feedPage None)
     = (None, (feedPage None)\<lparr>profileCache := [js ''alice.test'' \<mapsto> None]\<rparr>) \<and>
   fst (fetchProfile (Response 200 (Json (Some aliceProfile))) (js ''alice.test'')
     (fst (session [Lookup (js ''bob.test''), Settle (js ''bob.test'') (Response 200 (Json (Some aliceProfile))),
                    Lookup (js ''alice.test'')]
        ((feedPage None)\<lparr>profileCache := [js ''alice.test'' \<mapsto> None]\<rparr>, [])))) = Fulfilled None"
proof -
  have a: "fetchProfile_settle NetworkError (js ''alice.test'') (feedPage None)
     = (None, (feedPage None)\<lparr>profileCache := [js ''alice.test'' \<mapsto> None]\<rparr>)"
    by (simp add: fetchProfile_settle_def fetchProfile_response_def fetchProfile_catch_def
        feedPage_def)
  have w: "js ''alice.test'' \<notin> set []" by simp
  from stored_result_returned[OF disjI1[OF a] w,
      of "[Lookup (js ''bob.test''), Settle (js ''bob.test'') (Response 200 (Json (Some aliceProfile))),
           Lookup (js ''alice.test'')]" "Response 200 (Json (Some aliceProfile))"] a
  show ?thesis by (simp del: session.simps)
qed

text \<open>
  As the specification words it, the property fails when two lookups of one identifier
  overlap: both miss the cache and both call the network. After the first has stored
  the negative result a lookup returns it, with no further call; then the second is
  answered, overwrites the entry, and the next lookup returns a record.
\<close>

theorem overlapping_lookup_counterexample:
  "requests (fst (session overlappingLookups (feedPage None, [])))
     = [js ''alice.test'', js ''alice.test''] \<and>
   fst (fetchProfile NetworkError (js ''alice.test'')
          (fst (session overlappingLookups (feedPage None, [])))) = Fulfilled None \<and>
   requests (snd (fetchProfile NetworkError (js ''alice.test'')
          (fst (session overlappingLookups (feedPage None, [])))))
     = [js ''alice.test'', js ''alice.test''] \<and>
   fst (fetchProfile NetworkError (js ''alice.test'')
          (fst (step (Settle (js ''alice.test'') (Response 200 (Json (Some aliceProfile))))
                  (session overlappingLookups (feedPage None, []))))) = Fulfilled (Some aliceProfile)"
  unfolding overlapping_state
  by (simp add: fetchProfile_unfold fetchProfile_settle_def fetchProfile_response_def ok_def)

text \<open>
  C5. When an identifier is not in the cache and the fetch fails (transport error,
  non-success status, or a payload that does not parse), \<open>fetchProfile\<close> returns the
  negative result and stores it in the cache; its promise is never rejected.
\<close>

theorem fetchProfile_failure_negative:
  "profileCache st handle = None \<Longrightarrow> spec_failed net \<Longrightarrow>
     fst (fetchProfile net handle st) = Fulfilled None \<and>
     profileCache (snd (fetchProfile net handle st)) handle = Some None \<and>
     (\<forall>net' handle' st' error. fst (fetchProfile net' handle' st') \<noteq> Rejected error)"
proof -
  assume miss: "profileCache st handle = None" and f: "spec_failed net"
  have never: "fst (fetchProfile net' handle' st') \<noteq> Rejected error" for net' handle' st' error
    using fetchProfile_stores[of net' handle' st' "fst (fetchProfile net' handle' st')"
        "snd (fetchProfile net' handle' st')"] by auto
  from miss f have r: "fst (fetchProfile net handle st) = Fulfilled None"
    by (auto simp: fetchProfile_unfold Let_def spec_failed_def
        split: fetched.splits body.splits)
  obtain r1 st1 where e: "fetchProfile net handle st = (r1, st1)"
    by (cases "fetchProfile net handle st")
  from fetchProfile_stores[OF e] r e
  have "profileCache (snd (fetchProfile net handle st)) handle = Some None" by auto
  with r never show ?thesis by blast
qed

theorem fetchProfile_failure_negative_witness:
  "profileCache (feedPage None) (js ''alice.test'') = None \<and> spec_failed (Response 404 (Json (Some aliceProfile))) \<and>
   fst (fetchProfile (Response 404 (Json (Some aliceProfile))) (js ''alice.test'') (feedPage None)) = Fulfilled None \<and>
   profileCache (snd (fetchProfile (Response 404 (Json (Some aliceProfile))) (js ''alice.test'') (feedPage None)))
     (js ''alice.test'') = Some None"
proof -
  have m: "profileCache (feedPage None) (js ''alice.test'') = None" by (simp add: feedPage_def)
  have f: "spec_failed (Response 404 (Json (Some aliceProfile)))" by (simp add: spec_failed_def ok_def)
  from fetchProfile_failure_negative[OF m f] m f show ?thesis by simp
qed

subsection \<open>The renderer\<close>


lemma begin_abandon:
  "link \<notin> processedLinks st \<Longrightarrow> extractHandle (anchors st link) = None \<Longrightarrow>
     replaceMention_begin link st = (None, st\<lparr>processedLinks := insert link (processedLinks st)\<rparr>)"
  by (simp add: replaceMention_begin_def)

lemma begin_swap:
  "link \<notin> processedLinks st \<Longrightarrow> extractHandle (anchors st link) = Some handle \<Longrightarrow>
     replaceMention_begin link st =
       (Some \<lparr>handleOf = handle, imgOf = nextImage st, originalText = textContent (anchors st link)\<rparr>,
        st\<lparr>processedLinks := insert link (processedLinks st),
           images := (images st)(nextImage st :=
              \<lparr>className = [js ''bppi-avatar'', js ''bppi-loading''],
               alt = textContent (anchors st link), title = textContent (anchors st link),
               src = None, onload = False, onerror = None\<rparr>),
           nextImage := Suc (nextImage st),
           anchors := (anchors st)(link := (anchors st link)\<lparr>children := Img (nextImage st)\<rparr>)\<rparr>)"
proof -
  assume a: "link \<notin> processedLinks st" and e: "extractHandle (anchors st link) = Some handle"
  from e have "handle \<noteq> []"
    using matchProfile_nonempty by (auto simp: extractHandle_def split: option.splits if_splits)
  with a e show ?thesis
    by (simp add: replaceMention_begin_def Let_def setChildren_def)
qed

lemma begin_Some:
  assumes "replaceMention_begin link st = (Some k, st1)"
  shows "link \<notin> processedLinks st" and "extractHandle (anchors st link) = Some (handleOf k)"
    and "imgOf k = nextImage st" and "originalText k = textContent (anchors st link)"
    and "processedLinks st1 = insert link (processedLinks st)"
    and "anchors st1 = (anchors st)(link := (anchors st link)\<lparr>children := Img (imgOf k)\<rparr>)"
    and "onerror (images st1 (imgOf k)) = None"
    and "profileCache st1 = profileCache st" and "requests st1 = requests st"
    and "document st1 = document st"
    and "alt (images st1 (imgOf k)) = textContent (anchors st link)"
    and "onload (images st1 (imgOf k)) = False"
proof -
  from assms have n: "link \<notin> processedLinks st"
    by (auto simp: replaceMention_begin_def split: if_splits)
  from assms n obtain handle where h: "extractHandle (anchors st link) = Some handle"
    by (cases "extractHandle (anchors st link)") (auto simp: begin_abandon)
  note eq = assms[unfolded begin_swap[OF n h]]
  from n show "link \<notin> processedLinks st" .
  from eq h show "extractHandle (anchors st link) = Some (handleOf k)" by auto
  from eq show "imgOf k = nextImage st" by auto
  from eq show "originalText k = textContent (anchors st link)" by auto
  from eq show "processedLinks st1 = insert link (processedLinks st)" by auto
  from eq show "anchors st1 = (anchors st)(link := (anchors st link)\<lparr>children := Img (imgOf k)\<rparr>)"
    by auto
  from eq show "onerror (images st1 (imgOf k)) = None" by auto
  from eq show "profileCache st1 = profileCache st" by auto
  from eq show "requests st1 = requests st" by auto
  from eq show "document st1 = document st" by auto
  from eq show "alt (images st1 (imgOf k)) = textContent (anchors st link)" by auto
  from eq show "onload (images st1 (imgOf k)) = False" by auto
qed

lemma restore_simps:
  "processedLinks (restore link text st) = processedLinks st - {link}"
  "anchors (restore link text st) = (anchors st)(link := (anchors st link)\<lparr>children := Text text\<rparr>)"
  "images (restore link text st) = images st"
  "document (restore link text st) = document st"
  "profileCache (restore link text st) = profileCache st"
  "requests (restore link text st) = requests st"
  by (simp_all add: restore_def setChildren_def Let_def)

lemma resume_revert:
  "\<not> hasAvatar result \<Longrightarrow> replaceMention_resume link k result st = restore link (originalText k) st"
  by (auto simp: replaceMention_resume_def hasAvatar_def split: option.splits)

lemma resume_resolve:
  "hasAvatar result \<Longrightarrow> \<exists>p. result = Some p \<and> truthy (avatar p) \<and>
     replaceMention_resume link k result st =
       st\<lparr>images := (images st)(imgOf k := (images st (imgOf k))
            \<lparr>src := avatar p, title := label p (handleOf k),
             className := removeAll (js ''bppi-loading'') (className (images st (imgOf k))),
             onload := True, onerror := Some (link, originalText k)\<rparr>)\<rparr>"
  by (auto simp: replaceMention_resume_def hasAvatar_def split: option.splits)

lemma mentionLink_isMention: "isMention (mentionLink h)"
  by (simp add: isMention_def mentionLink_def textContent_def trim_def isWhiteSpace_def
      startsWithAt_def js_def)

lemma feedPage_selected:
  "containsProfile h \<Longrightarrow> mentionsToProcess (feedPage (Some h)) = [0]"
  using mentionLink_isInPost[of "Some h"] mentionLink_isMention[of "Some h"]
  by (simp add: mentionsToProcess_def querySelectorAll_def feedPage_def tagIs_def)
     (simp add: mentionLink_def)


text \<open>
  C8. When the lookup of a dispatched mention gives a record with a usable avatar
  reference, the link holds the placeholder image, the source of the image is that
  reference and its tooltip is the display name, or the identifier when the record has
  no display name, followed by \<open>(@identifier)\<close>; the \<open>alt\<close> text stays the original text
  of the link.
\<close>

theorem resolved_image_label:
  assumes "replaceMention_begin link st = (Some k, st1)"
    and "fetchProfile net (handleOf k) st1 = (Fulfilled (Some p), st2)"
    and "truthy (avatar p)"
  shows "extractHandle (anchors st link) = Some (handleOf k) \<and>
         children (anchors (replaceMention net link st) link) = Img (imgOf k) \<and>
         src (images (replaceMention net link st) (imgOf k)) = avatar p \<and>
         alt (images (replaceMention net link st) (imgOf k)) = textContent (anchors st link) \<and>
         title (images (replaceMention net link st) (imgOf k)) =
           (if truthy (displayName p) then the (displayName p) else handleOf k)
             @ js '' (@'' @ handleOf k @ js '')''"
proof -
  from assms(3) have h: "hasAvatar (Some p)" by (simp add: hasAvatar_def)
  have r: "replaceMention net link st = replaceMention_resume link k (Some p) st2"
    using assms(1,2) by (simp add: replaceMention_def)
  from fetchProfile_frame[OF assms(2)] begin_Some(6)[OF assms(1)]
  have a: "children (anchors st2 link) = Img (imgOf k)" by simp
  from fetchProfile_frame[OF assms(2)] begin_Some(11)[OF assms(1)]
  have b: "alt (images st2 (imgOf k)) = textContent (anchors st link)" by simp
  from resume_resolve[OF h, of link k st2] begin_Some(2)[OF assms(1)] a b show ?thesis
    unfolding r by (auto simp: label_def truthy_def split: option.splits)
qed

theorem resolved_image_label_witness:
  "src (images (replaceMention (Response 200 (Json (Some aliceProfile))) 0
          (feedPage (Some (js ''/profile/alice.test'')))) 0) = Some (js ''https://x/img.jpg'') \<and>
   title (images (replaceMention (Response 200 (Json (Some aliceProfile))) 0
          (feedPage (Some (js ''/profile/alice.test'')))) 0) = js ''Alice (@alice.test)''"
proof -
  let ?st = "feedPage (Some (js ''/profile/alice.test''))"
  let ?net = "Response 200 (Json (Some aliceProfile))"
  have n: "0 \<notin> processedLinks ?st" by (simp add: feedPage_def)
  have e: "extractHandle (anchors ?st 0) = Some (js ''alice.test'')"
    by (simp add: feedPage_def extractHandle_def mentionLink_def js_def matchAt_def
        profilePath_def isDelimiter_def)
  note b = begin_swap[OF n e]
  have w: "wellFormed (js ''alice.test'')"
    by (simp add: js_def isHighSurrogate_def isLowSurrogate_def)
  have m: "profileCache (snd (replaceMention_begin 0 ?st)) (js ''alice.test'') = None"
    unfolding b by (simp add: feedPage_def)
  obtain st2 where f: "fetchProfile ?net (js ''alice.test'') (snd (replaceMention_begin 0 ?st))
      = (Fulfilled (Some aliceProfile), st2)"
    using m w by (simp add: fetchProfile_unfold ok_def Let_def)
  have t: "truthy (avatar aliceProfile)" by (simp add: truthy_def aliceProfile_def js_def)
  have nx: "nextImage ?st = 0" by (simp add: feedPage_def)
  from resolved_image_label[of 0 ?st _ "snd (replaceMention_begin 0 ?st)" ?net aliceProfile st2]
    b f t nx
  show ?thesis by (simp add: aliceProfile_def truthy_def js_def)
qed

subsection \<open>Extraction failure\<close>

lemma slashProfile_fails:
  "extractHandle (anchors (feedPage (Some (js ''/profile/''))) 0) = None"
  by (simp add: feedPage_def extractHandle_def mentionLink_def js_def matchAt_def
      profilePath_def isDelimiter_def)

lemma slashProfile_selected: "mentionsToProcess (feedPage (Some (js ''/profile/''))) = [0]"
  by (rule feedPage_selected) (simp add: js_def profilePath_def)

text \<open>
  C1. The specification asks that a link on which identifier extraction fails be
  abandoned without being marked, so that a later scan may take it up again. The code
  does otherwise on a mention whose destination is \<open>/profile/\<close>: the scan selects the
  link, extraction fails, and afterwards the link is in \<open>processedLinks\<close> and no scan
  selects it again. The other two exits of \<open>replaceMention\<close> that give a link up do
  take it out of \<open>processedLinks\<close>.
\<close>

theorem extraction_failure_leaves_mark:
  "0 \<in> set (mentionsToProcess (feedPage (Some (js ''/profile/'')))) \<and>
   extractHandle (anchors (feedPage (Some (js ''/profile/''))) 0) = None \<and>
   0 \<in> processedLinks (replaceMention NetworkError 0 (feedPage (Some (js ''/profile/'')))) \<and>
   0 \<notin> set (mentionsToProcess (replaceMention NetworkError 0 (feedPage (Some (js ''/profile/'')))))"
proof -
  have n: "0 \<notin> processedLinks (feedPage (Some (js ''/profile/'')))" by (simp add: feedPage_def)
  have r: "replaceMention NetworkError 0 (feedPage (Some (js ''/profile/'')))
      = (feedPage (Some (js ''/profile/'')))\<lparr>processedLinks := {0}\<rparr>"
    by (simp add: replaceMention_def begin_abandon[OF n slashProfile_fails]) (simp add: feedPage_def)
  show ?thesis unfolding r using slashProfile_fails slashProfile_selected
    by (simp add: mentionsToProcess_def)
qed

subsection \<open>Resolved or reverted\<close>




lemma replaceMention_pipeline:
  "replaceMention_begin link st = (Some k, st1) \<Longrightarrow>
   fetchProfile net (handleOf k) st1 = (Fulfilled result, st2) \<Longrightarrow>
   replaceMention net link st = replaceMention_resume link k result st2"
  by (simp add: replaceMention_def)

lemma pipeline_reverted:
  assumes b: "replaceMention_begin link st = (Some k, st1)"
    and f: "fetchProfile net (handleOf k) st1 = (Fulfilled result, st2)"
    and r: "\<not> hasAvatar result \<or> ev = Error"
  defines "st4 \<equiv> imageEvent ev (imgOf k) (replaceMention_resume link k result st2)"
  shows "processedLinks st4 = processedLinks st"
    and "anchors st4 = (anchors st)(link := (anchors st link)\<lparr>children := Text (originalText k)\<rparr>)"
    and "document st4 = document st"
    and "profileCache st4 = profileCache st2" and "requests st4 = requests st2"
proof -
  have fr: "anchors st2 = anchors st1" "processedLinks st2 = processedLinks st1"
    "document st2 = document st1" "images st2 = images st1"
    using fetchProfile_frame[OF f] by simp_all
  note bs = begin_Some[OF b]
  have "\<exists>X. st4 = restore link (originalText k) (st2\<lparr>images := X\<rparr>)"
  proof (cases "hasAvatar result")
    case True
    with r have ev: "ev = Error" by simp
    from resume_resolve[OF True, of link k st2] obtain p where
      "replaceMention_resume link k result st2 =
       st2\<lparr>images := (images st2)(imgOf k := (images st2 (imgOf k))
            \<lparr>src := avatar p, title := label p (handleOf k),
             className := removeAll (js ''bppi-loading'') (className (images st2 (imgOf k))),
             onload := True, onerror := Some (link, originalText k)\<rparr>)\<rparr>"
      by blast
    then show ?thesis unfolding st4_def ev by (simp add: imageEvent_def) blast
  next
    case False
    have h: "onerror (images st2 (imgOf k)) = None" "onload (images st2 (imgOf k)) = False"
      using fr(4) bs(7,12) by simp_all
    have "st4 = restore link (originalText k) st2"
      unfolding st4_def resume_revert[OF False]
      using h by (cases ev) (simp_all add: imageEvent_def restore_simps)
    then have "st4 = restore link (originalText k) (st2\<lparr>images := images st2\<rparr>)" by simp
    then show ?thesis by blast
  qed
  then obtain X where st4: "st4 = restore link (originalText k) (st2\<lparr>images := X\<rparr>)" by blast
  have "processedLinks st4 = processedLinks st1 - {link}"
    unfolding st4 by (simp add: restore_simps fr)
  with bs(1,5) show "processedLinks st4 = processedLinks st" by simp
  have "anchors st4 = (anchors st1)(link := (anchors st1 link)\<lparr>children := Text (originalText k)\<rparr>)"
    unfolding st4 by (simp add: restore_simps fr)
  then show "anchors st4 = (anchors st)(link := (anchors st link)\<lparr>children := Text (originalText k)\<rparr>)"
    unfolding bs(6) by simp
  show "document st4 = document st" unfolding st4 by (simp add: restore_simps fr bs(10))
  show "profileCache st4 = profileCache st2" unfolding st4 by (simp add: restore_simps)
  show "requests st4 = requests st2" unfolding st4 by (simp add: restore_simps)
qed

lemma pipeline_resolved:
  assumes b: "replaceMention_begin link st = (Some k, st1)"
    and f: "fetchProfile net (handleOf k) st1 = (Fulfilled result, st2)"
    and r: "hasAvatar result" "ev \<noteq> Error"
  defines "st4 \<equiv> imageEvent ev (imgOf k) (replaceMention_resume link k result st2)"
  shows "processedLinks st4 = insert link (processedLinks st)"
    and "children (anchors st4 link) = Img (imgOf k)"
    and "\<exists>p. result = Some p \<and> src (images st4 (imgOf k)) = avatar p"
proof -
  note fr = fetchProfile_frame[OF f]
  note bs = begin_Some[OF b]
  from resume_resolve[OF r(1), of link k st2] obtain p where p: "result = Some p"
    and st3: "replaceMention_resume link k result st2 =
       st2\<lparr>images := (images st2)(imgOf k := (images st2 (imgOf k))
            \<lparr>src := avatar p, title := label p (handleOf k),
             className := removeAll (js ''bppi-loading'') (className (images st2 (imgOf k))),
             onload := True, onerror := Some (link, originalText k)\<rparr>)\<rparr>"
    by blast
  from r(2) fr bs(5) show "processedLinks st4 = insert link (processedLinks st)"
    unfolding st4_def st3 by (cases ev) (simp_all add: imageEvent_def)
  from r(2) fr bs(6) show "children (anchors st4 link) = Img (imgOf k)"
    unfolding st4_def st3 by (cases ev) (simp_all add: imageEvent_def)
  from r(2) p show "\<exists>p. result = Some p \<and> src (images st4 (imgOf k)) = avatar p"
    unfolding st4_def st3 by (cases ev) (simp_all add: imageEvent_def)
qed

lemma alice_begin:
  "replaceMention_begin 0 (feedPage (Some (js ''/profile/alice.test''))) =
     (Some aliceAwaiting,
      snd (replaceMention_begin 0 (feedPage (Some (js ''/profile/alice.test'')))))"
proof -
  let ?st = "feedPage (Some (js ''/profile/alice.test''))"
  have n: "0 \<notin> processedLinks ?st" by (simp add: feedPage_def)
  have e: "extractHandle (anchors ?st 0) = Some (js ''alice.test'')"
    by (simp add: feedPage_def extractHandle_def mentionLink_def js_def matchAt_def
        profilePath_def isDelimiter_def)
  show ?thesis unfolding begin_swap[OF n e]
    by (simp add: feedPage_def mentionLink_def textContent_def aliceAwaiting_def)
qed

lemma alice_miss:
  "profileCache (snd (replaceMention_begin 0 (feedPage (Some (js ''/profile/alice.test'')))))
     (js ''alice.test'') = None"
  using begin_Some(8)[OF alice_begin] by (simp add: feedPage_def)

lemma aliceAwaiting_simps:
  "handleOf aliceAwaiting = js ''alice.test''" "imgOf aliceAwaiting = 0"
  "originalText aliceAwaiting = js ''@alice.test''"
  by (simp_all add: aliceAwaiting_def)

lemma alice_fetch_fst:
  "ok status \<Longrightarrow>
   fst (fetchProfile (Response status (Json data)) (js ''alice.test'')
     (snd (replaceMention_begin 0 (feedPage (Some (js ''/profile/alice.test'')))))) = Fulfilled data"
proof -
  have w: "wellFormed (js ''alice.test'')"
    by (simp add: js_def isHighSurrogate_def isLowSurrogate_def)
  assume "ok status"
  with w alice_miss show ?thesis
    by (simp add: fetchProfile_unfold Let_def)
qed

lemma alice_fetch:
  "ok status \<Longrightarrow>
   fetchProfile (Response status (Json data)) (handleOf aliceAwaiting)
     (snd (replaceMention_begin 0 (feedPage (Some (js ''/profile/alice.test''))))) =
   (Fulfilled data,
    snd (fetchProfile (Response status (Json data)) (handleOf aliceAwaiting)
     (snd (replaceMention_begin 0 (feedPage (Some (js ''/profile/alice.test'')))))))"
  by (simp add: prod_eq_iff alice_fetch_fst aliceAwaiting_simps)

text \<open>
  C2 (as the code has it). For a link that \<open>replaceMention\<close> has taken up, the original
  text is restored if and only if the lookup gave no usable avatar (the negative result,
  or a record whose avatar reference is missing or empty) or the image failed to load;
  in every other case the link keeps the image, whose source is the avatar reference.
\<close>

theorem fallback_restored_iff:
  assumes "replaceMention_begin link st = (Some k, st1)"
    and "fetchProfile net (handleOf k) st1 = (Fulfilled result, st2)"
  shows "(children (anchors (imageEvent ev (imgOf k) (replaceMention net link st)) link)
            = Text (originalText k)
          \<longleftrightarrow> \<not> hasAvatar result \<or> ev = Error) \<and>
         (hasAvatar result \<and> ev \<noteq> Error \<longrightarrow>
            children (anchors (imageEvent ev (imgOf k) (replaceMention net link st)) link)
              = Img (imgOf k) \<and>
            (\<exists>p. result = Some p \<and>
               src (images (imageEvent ev (imgOf k) (replaceMention net link st)) (imgOf k))
                 = avatar p))"
proof (cases "\<not> hasAvatar result \<or> ev = Error")
  case True
  from pipeline_reverted(2)[OF assms True] True show ?thesis
    unfolding replaceMention_pipeline[OF assms] by auto
next
  case False
  then have r: "hasAvatar result" "ev \<noteq> Error" by simp_all
  from pipeline_resolved(2,3)[OF assms r] r show ?thesis
    unfolding replaceMention_pipeline[OF assms] by auto
qed

theorem fallback_restored_iff_witness:
  "children (anchors (imageEvent Error 0 (replaceMention (Response 200 (Json (Some aliceProfile))) 0
      (feedPage (Some (js ''/profile/alice.test''))))) 0) = Text (js ''@alice.test'') \<and>
   children (anchors (imageEvent Load 0 (replaceMention (Response 200 (Json (Some aliceProfile))) 0
      (feedPage (Some (js ''/profile/alice.test''))))) 0) = Img 0 \<and>
   children (anchors (imageEvent Load 0 (replaceMention (Response 200 (Json (Some noAvatarProfile))) 0
      (feedPage (Some (js ''/profile/alice.test''))))) 0) = Text (js ''@alice.test'')"
proof -
  have o: "ok 200" by (simp add: ok_def)
  have a: "hasAvatar (Some aliceProfile)" by (simp add: hasAvatar_def truthy_def aliceProfile_def js_def)
  have b: "\<not> hasAvatar (Some noAvatarProfile)" by (simp add: hasAvatar_def truthy_def noAvatarProfile_def)
  from fallback_restored_iff[where ev = Error, OF alice_begin alice_fetch[OF o, of "Some aliceProfile"]]
       fallback_restored_iff[where ev = Load, OF alice_begin alice_fetch[OF o, of "Some aliceProfile"]]
       fallback_restored_iff[where ev = Load, OF alice_begin alice_fetch[OF o, of "Some noAvatarProfile"]] a b
  show ?thesis by (simp add: aliceAwaiting_simps)
qed

text \<open>
  As the specification words it, the property fails on a successful lookup whose record
  has no avatar: the fetch did not fail and its result is not the negative one, no image
  was ever given a source, and yet the text is restored.
\<close>

theorem fallback_counterexample:
  "\<not> spec_failed (Response 200 (Json (Some noAvatarProfile))) \<and>
   fst (fetchProfile (Response 200 (Json (Some noAvatarProfile))) (js ''alice.test'')
     (snd (replaceMention_begin 0 (feedPage (Some (js ''/profile/alice.test''))))))
     = Fulfilled (Some noAvatarProfile) \<and>
   src (images (replaceMention (Response 200 (Json (Some noAvatarProfile))) 0
      (feedPage (Some (js ''/profile/alice.test'')))) 0) = None \<and>
   children (anchors (replaceMention (Response 200 (Json (Some noAvatarProfile))) 0
      (feedPage (Some (js ''/profile/alice.test'')))) 0) = Text (js ''@alice.test'')"
proof -
  have o: "ok 200" by (simp add: ok_def)
  have b: "\<not> hasAvatar (Some noAvatarProfile)" by (simp add: hasAvatar_def truthy_def noAvatarProfile_def)
  note f = alice_fetch[OF o, of "Some noAvatarProfile"]
  note fr = fetchProfile_frame[OF f]
  note bs = begin_Some[OF alice_begin]
  have r: "replaceMention (Response 200 (Json (Some noAvatarProfile))) 0
      (feedPage (Some (js ''/profile/alice.test''))) =
      restore 0 (js ''@alice.test'') (snd (fetchProfile (Response 200 (Json (Some noAvatarProfile))) (handleOf aliceAwaiting)
     (snd (replaceMention_begin 0 (feedPage (Some (js ''/profile/alice.test'')))))))"
    unfolding replaceMention_pipeline[OF alice_begin f] resume_revert[OF b]
    by (simp add: aliceAwaiting_simps)
  have "src (images (snd (replaceMention_begin 0 (feedPage (Some (js ''/profile/alice.test''))))) 0) = None"
    unfolding begin_swap[OF bs(1) bs(2)] by (simp add: feedPage_def)
  then show ?thesis unfolding r using fr alice_fetch_fst[OF o, of "Some noAvatarProfile"]
    by (simp add: restore_simps spec_failed_def ok_def aliceAwaiting_simps)
qed

subsection \<open>Dispatch and the processed set\<close>










subsection \<open>A record without an avatar\<close>










subsection \<open>The debounce\<close>

lemma shouldProcess_addsNode: "shouldProcess ms \<longleftrightarrow> addsNode ms"
  by (simp add: shouldProcess_def addsNode_def list_ex_iff)

lemma runTimers_early: "armed st w due \<Longrightarrow> now < due \<Longrightarrow> runTimers now w = w"
  by (auto simp: armed_def runTimers_def)

lemma runTimers_due:
  "armed st w due \<Longrightarrow> due \<le> now \<Longrightarrow>
     runTimers now w = w\<lparr>shown := processMentions st, timers := [], scanLog := [now]\<rparr>"
  by (auto simp: armed_def runTimers_def)

lemma observerCallback_rearm:
  "armed st w due \<Longrightarrow> addsNode ms \<Longrightarrow> armed st (observerCallback now ms w) (now + 100)"
  by (auto simp: armed_def observerCallback_def shouldProcess_addsNode setTimeout100_def
      clearTimeout_def)

lemma observerCallback_first:
  "addsNode ms \<Longrightarrow> armed st (observerCallback now ms (setupObserver st)) (now + 100)"
  by (simp add: armed_def observerCallback_def shouldProcess_addsNode setTimeout100_def
      setupObserver_def)

lemma deliver_armed:
  "armed st w (tp + 100) \<Longrightarrow> list_all (\<lambda>(t, ms). addsNode ms) bursts \<Longrightarrow>
   withinWindow ((tp, msp) # bursts) \<Longrightarrow>
   armed st (deliver bursts w) (fst (last ((tp, msp) # bursts)) + 100)"
proof (induction bursts arbitrary: w tp msp)
  case Nil
  then show ?case by simp
next
  case (Cons b bursts)
  obtain t ms where b: "b = (t, ms)" by (cases b)
  from Cons.prems(3) have t: "tp \<le> t" "t < tp + 100" and ww: "withinWindow ((t, ms) # bursts)"
    by (simp_all add: b)
  from Cons.prems(2) have q: "addsNode ms" and qs: "list_all (\<lambda>(t, ms). addsNode ms) bursts"
    by (simp_all add: b)
  have "armed st (observerCallback t ms (runTimers t w)) (t + 100)"
    unfolding runTimers_early[OF Cons.prems(1) t(2)]
    by (rule observerCallback_rearm[OF Cons.prems(1) q])
  from Cons.IH[OF this qs ww] show ?case by (simp add: b)
qed

lemma deliver_bursts:
  assumes "bursts \<noteq> []" "list_all (\<lambda>(t, ms). addsNode ms) bursts" "withinWindow bursts"
  shows "armed st (deliver bursts (setupObserver st)) (fst (last bursts) + 100)"
proof -
  from assms(1) obtain t ms rest where b: "bursts = (t, ms) # rest" by (cases bursts) auto
  from assms(2) have q: "addsNode ms" and qs: "list_all (\<lambda>(t, ms). addsNode ms) rest"
    by (simp_all add: b)
  have "runTimers t (setupObserver st) = setupObserver st"
    by (simp add: runTimers_def setupObserver_def)
  then have "deliver bursts (setupObserver st) = deliver rest (observerCallback t ms (setupObserver st))"
    by (simp add: b)
  moreover from deliver_armed[OF observerCallback_first[OF q] qs assms(3)[unfolded b]]
  have "armed st (deliver rest (observerCallback t ms (setupObserver st)))
          (fst (last ((t, ms) # rest)) + 100)" .
  ultimately show ?thesis by (simp only: b)
qed

text \<open>
  C6. The observer's callback changes the state, by cancelling the pending timer and
  setting a new one 100 ms ahead, if and only if some mutation of the batch added a
  node; a batch of removals leaves everything as it is. When bursts that each add a node
  arrive less than 100 ms apart, \<open>processMentions\<close> has not run before 100 ms have
  passed since the last burst, and from then on it has run exactly once, with no timer
  left.
\<close>

theorem debounced_rescan:
  assumes "bursts \<noteq> []" "list_all (\<lambda>(t, ms). addsNode ms) bursts" "withinWindow bursts"
  shows "(\<forall>now ms w. observerCallback now ms w \<noteq> w \<longleftrightarrow> addsNode ms) \<and>
         (\<forall>now ms w. addsNode ms \<longrightarrow>
            timers (observerCallback now ms w) =
              filter (\<lambda>(i, due). timeoutHandle w \<noteq> Some i \<or> i = 0) (timers w)
                @ [(nextTimer w, now + 100)]) \<and>
         scanLog (runTimers T (deliver bursts (setupObserver st))) =
           (if fst (last bursts) + 100 \<le> T then [T] else []) \<and>
         shown (runTimers T (deliver bursts (setupObserver st))) =
           (if fst (last bursts) + 100 \<le> T then processMentions st else st) \<and>
         (fst (last bursts) + 100 \<le> T \<longrightarrow>
            timers (runTimers T (deliver bursts (setupObserver st))) = [])"
proof -
  have a: "observerCallback now ms w \<noteq> w \<longleftrightarrow> addsNode ms" for now ms w
  proof
    assume "observerCallback now ms w \<noteq> w"
    then show "addsNode ms"
      by (auto simp: observerCallback_def shouldProcess_addsNode split: if_splits)
  next
    assume q: "addsNode ms"
    have "nextTimer (observerCallback now ms w) = Suc (nextTimer w)"
      using q by (auto simp: observerCallback_def shouldProcess_addsNode setTimeout100_def
          clearTimeout_def split: option.splits)
    then show "observerCallback now ms w \<noteq> w" by auto
  qed
  have b: "timers (observerCallback now ms w) =
              filter (\<lambda>(i, due). timeoutHandle w \<noteq> Some i \<or> i = 0) (timers w)
                @ [(nextTimer w, now + 100)]" if "addsNode ms" for now ms w
    using that by (auto simp: observerCallback_def shouldProcess_addsNode setTimeout100_def
        clearTimeout_def split: option.splits intro!: filter_cong)
  note d = deliver_bursts[OF assms, of st]
  have c: "scanLog (runTimers T (deliver bursts (setupObserver st))) =
           (if fst (last bursts) + 100 \<le> T then [T] else []) \<and>
         shown (runTimers T (deliver bursts (setupObserver st))) =
           (if fst (last bursts) + 100 \<le> T then processMentions st else st) \<and>
         (fst (last bursts) + 100 \<le> T \<longrightarrow>
            timers (runTimers T (deliver bursts (setupObserver st))) = [])"
  proof (cases "fst (last bursts) + 100 \<le> T")
    case True
    show ?thesis unfolding runTimers_due[OF d True] using True by simp
  next
    case False
    then have "T < fst (last bursts) + 100" by simp
    from runTimers_early[OF d this] d False show ?thesis by (simp add: armed_def)
  qed
  from a b c show ?thesis by blast
qed

theorem debounced_rescan_witness:
  "scanLog (runTimers 139 (deliver threeBursts (setupObserver (feedPage None)))) = [] \<and>
   scanLog (runTimers 140 (deliver threeBursts (setupObserver (feedPage None)))) = [140] \<and>
   timers (runTimers 140 (deliver threeBursts (setupObserver (feedPage None)))) = [] \<and>
   observerCallback 50 [\<lparr>addedNodes = 0, removedNodes = 7\<rparr>]
     (deliver threeBursts (setupObserver (feedPage None)))
     = deliver threeBursts (setupObserver (feedPage None))"
proof -
  have ne: "threeBursts \<noteq> []" by (simp add: threeBursts_def)
  have q: "list_all (\<lambda>(t, ms). addsNode ms) threeBursts"
    by (simp add: threeBursts_def addsNode_def)
  have w: "withinWindow threeBursts" by (simp add: threeBursts_def)
  have l: "fst (last threeBursts) = 40" by (simp add: threeBursts_def)
  have r: "\<not> addsNode [\<lparr>addedNodes = 0, removedNodes = 7\<rparr>]" by (simp add: addsNode_def)
  note t = debounced_rescan[OF ne q w, of _ "feedPage None"]
  from t[of 139] have a: "scanLog (runTimers 139 (deliver threeBursts (setupObserver (feedPage None)))) = []"
    unfolding l by simp
  from t[of 140] have b: "scanLog (runTimers 140 (deliver threeBursts (setupObserver (feedPage None)))) = [140]"
    and c: "timers (runTimers 140 (deliver threeBursts (setupObserver (feedPage None)))) = []"
    unfolding l by simp_all
  from t[of 0] r have d: "observerCallback 50 [\<lparr>addedNodes = 0, removedNodes = 7\<rparr>]
     (deliver threeBursts (setupObserver (feedPage None)))
     = deliver threeBursts (setupObserver (feedPage None))" by blast
  from a b c d show ?thesis by blast
qed

end
